theory Spec2Isabelle
  imports Complex_Main "HOL-Library.AList" "HOL-Library.Sublist" "HOL-Library.Log_Nat"
begin

section \<open>Errors, external calls and Python list primitives\<close>

text \<open>
  Every exception the modelled code can raise is a value of \<open>error\<close>. \<open>ExternalError\<close>
  stands for whatever an external collaborator (the sentence handler, the transformer
  model, the clustering library, numpy) raises; it is passed on unchanged, as an
  uncaught Python exception is.
\<close>

datatype error =
    AssertionError string
  | IndexError
  | KeyError
  | ValueError
  | ZeroDivisionError
  | ExternalError string

text \<open>
  The external collaborators of \<open>ModelProcessor\<close> are the only places where model
  computation happens. Each invocation is recorded, in order, in a call log that the
  methods take and return.
\<close>

datatype call = SentenceHandlerCall | ModelCall | ClusterCall | AggregateCall

type_synonym 'a io = "call list \<Rightarrow> (error + 'a) \<times> call list"

definition return_io :: "'a \<Rightarrow> 'a io" where
  "return_io x = (\<lambda>cs. (Inr x, cs))"

definition raise_io :: "error \<Rightarrow> 'a io" where
  "raise_io e = (\<lambda>cs. (Inl e, cs))"

definition bind_io :: "'a io \<Rightarrow> ('a \<Rightarrow> 'b io) \<Rightarrow> 'b io" where
  "bind_io m f = (\<lambda>cs. case m cs of (Inl e, cs') \<Rightarrow> (Inl e, cs') | (Inr x, cs') \<Rightarrow> f x cs')"

text \<open>\<open>extern c r\<close>: the external call \<open>c\<close> is made and produces \<open>r\<close> (a value or an exception).\<close>

definition extern :: "call \<Rightarrow> error + 'a \<Rightarrow> 'a io" where
  "extern c r = (\<lambda>cs. (r, cs @ [c]))"

text \<open>\<open>lift r\<close>: a computation that makes no external call.\<close>

definition lift :: "error + 'a \<Rightarrow> 'a io" where
  "lift r = (\<lambda>cs. (r, cs))"

text \<open>
  Python's \<open>xs[j]\<close> on a list or an array: a negative index counts from the end, an index
  out of range raises \<open>IndexError\<close>.
\<close>

definition py_getitem :: "'a list \<Rightarrow> int \<Rightarrow> error + 'a" where
  "py_getitem xs j =
     (let n = int (length xs); k = (if j < 0 then n + j else j)
      in if 0 \<le> k \<and> k < n then Inr (xs ! nat k) else Inl IndexError)"

text \<open>The comprehension \<open>[xs[j] for j in js]\<close>: the first failing read raises.\<close>

fun getitems :: "'a list \<Rightarrow> int list \<Rightarrow> error + 'a list" where
  "getitems xs [] = Inr []"
| "getitems xs (j # js) =
     (case py_getitem xs j of
        Inl e \<Rightarrow> Inl e
      | Inr x \<Rightarrow> (case getitems xs js of Inl e \<Rightarrow> Inl e | Inr ys \<Rightarrow> Inr (x # ys)))"

text \<open>\<open>sep.join(xs)\<close>.\<close>

fun py_join :: "string \<Rightarrow> string list \<Rightarrow> string" where
  "py_join sep [] = []"
| "py_join sep [x] = x"
| "py_join sep (x # y # ys) = x @ sep @ py_join sep (y # ys)"

section \<open>ModelProcessor\<close>

text \<open>
  The fields of a \<open>ModelProcessor\<close> instance. \<open>model\<close> is the \<open>BertParent\<close> callable
  \<open>self.model(content, hidden, reduce_option)\<close>, returning one vector (of the abstract
  type \<open>'v\<close>) per sentence; \<open>sentence_handler\<close> is the \<open>SentenceHandler\<close> callable
  \<open>self.sentence_handler(body, min_length, max_length)\<close>. Both live outside this
  repository and are parameters of the model.
\<close>

record 'v ModelProcessor =
  model :: "string list \<Rightarrow> int \<Rightarrow> string \<Rightarrow> error + 'v list"
  hidden :: int
  reduce_option :: string
  sentence_handler :: "string \<Rightarrow> int \<Rightarrow> int \<Rightarrow> error + string list"
  random_state :: int

text \<open>
  The imported libraries. \<open>cluster hidden algorithm random_state ratio num_sentences\<close> is
  \<open>ClusterFeatures(hidden, algorithm, random_state=random_state).cluster(ratio, num_sentences)\<close>;
  the ratio is a float the code only passes on, so its type \<open>'r\<close> is abstract. The four
  numpy reductions take the selected embeddings and reduce them along axis 0.
\<close>

record ('v, 'r) library =
  cluster :: "'v list \<Rightarrow> string \<Rightarrow> int \<Rightarrow> 'r \<Rightarrow> int option \<Rightarrow> error + int list"
  np_mean :: "'v list \<Rightarrow> error + 'v"
  np_min :: "'v list \<Rightarrow> error + 'v"
  np_median :: "'v list \<Rightarrow> error + 'v"
  np_max :: "'v list \<Rightarrow> error + 'v"

text \<open>An \<open>ndarray\<close> result: the matrix of selected embeddings, or one reduced vector.\<close>

datatype 'v ndarray = Matrix "'v list" | Vector 'v

text \<open>The class attribute \<open>aggregate_map\<close>, a dict from the reduction's name to the function.\<close>

definition aggregate_map :: "('v, 'r) library \<Rightarrow> (string \<times> ('v list \<Rightarrow> error + 'v)) list" where
  "aggregate_map lib =
     [(''mean'', np_mean lib), (''min'', np_min lib), (''median'', np_median lib), (''max'', np_max lib)]"

text \<open>
  Lines 103 to 109 of \<open>cluster_runner\<close>: what happens to \<open>hidden_args\<close> under \<open>use_first\<close>.
  \<open>append(0)\<close> on the empty list, \<open>insert(0, 0)\<close> when the first element is not 0.
\<close>

definition use_first_args :: "bool \<Rightarrow> int list \<Rightarrow> int list" where
  "use_first_args use_first hidden_args =
     (if use_first then
        (if hidden_args = [] then hidden_args @ [0]
         else if hd hidden_args \<noteq> 0 then 0 # hidden_args
         else hidden_args)
      else hidden_args)"

text \<open>
  \<open>cluster_runner\<close>. Lines 97 and 98 assign \<open>num_sentences\<close> to itself in both branches
  and are left out. The array \<open>hidden\<close> is the list of its rows, so \<open>np.asarray\<close> of the
  list of selected rows is that list.
\<close>

definition cluster_runner ::
  "'v ModelProcessor \<Rightarrow> ('v, 'r) library \<Rightarrow> string list \<Rightarrow> 'r \<Rightarrow> string \<Rightarrow> bool \<Rightarrow> int option
     \<Rightarrow> (string list \<times> 'v list) io" where
  "cluster_runner self lib content ratio algorithm use_first num_sentences =
     bind_io (extern ModelCall (model self content (hidden self) (reduce_option self))) (\<lambda>hidden_states.
     bind_io (extern ClusterCall
                (cluster lib hidden_states algorithm (random_state self) ratio num_sentences)) (\<lambda>hidden_args0.
     let hidden_args = use_first_args use_first hidden_args0 in
     bind_io (lift (getitems content hidden_args)) (\<lambda>sentences.
     bind_io (lift (getitems hidden_states hidden_args)) (\<lambda>embeddings.
     return_io (sentences, embeddings)))))"

definition run_clusters ::
  "'v ModelProcessor \<Rightarrow> ('v, 'r) library \<Rightarrow> string list \<Rightarrow> 'r \<Rightarrow> string \<Rightarrow> bool \<Rightarrow> int option
     \<Rightarrow> (string list) io" where
  "run_clusters self lib content ratio algorithm use_first num_sentences =
     bind_io (cluster_runner self lib content ratio algorithm use_first num_sentences) (\<lambda>(sentences, _).
     return_io sentences)"

definition retrieve_summarized_embeddings ::
  "'v ModelProcessor \<Rightarrow> ('v, 'r) library \<Rightarrow> string list \<Rightarrow> 'r \<Rightarrow> string \<Rightarrow> bool \<Rightarrow> int option
     \<Rightarrow> ('v list) io" where
  "retrieve_summarized_embeddings self lib content ratio algorithm use_first num_sentences =
     bind_io (cluster_runner self lib content ratio algorithm use_first num_sentences) (\<lambda>(_, embeddings).
     return_io embeddings)"

definition run_embeddings ::
  "'v ModelProcessor \<Rightarrow> ('v, 'r) library \<Rightarrow> string \<Rightarrow> 'r \<Rightarrow> int \<Rightarrow> int \<Rightarrow> bool \<Rightarrow> string
     \<Rightarrow> int option \<Rightarrow> string option \<Rightarrow> ('v ndarray option) io" where
  "run_embeddings self lib body ratio min_length max_length use_first algorithm num_sentences aggregate =
     bind_io (extern SentenceHandlerCall (sentence_handler self body min_length max_length)) (\<lambda>sentences.
     if sentences \<noteq> [] then
       bind_io (retrieve_summarized_embeddings self lib sentences ratio algorithm use_first num_sentences)
         (\<lambda>embeddings.
       case aggregate of
         Some a \<Rightarrow>
           if a \<in> set [''mean'', ''median'', ''max'', ''min''] then
             (case map_of (aggregate_map lib) a of
                None \<Rightarrow> raise_io KeyError
              | Some f \<Rightarrow> bind_io (extern AggregateCall (f embeddings)) (\<lambda>v. return_io (Some (Vector v))))
           else raise_io (AssertionError ''aggregate must be mean, min, max, or median'')
       | None \<Rightarrow> return_io (Some (Matrix embeddings)))
     else return_io None)"

definition run ::
  "'v ModelProcessor \<Rightarrow> ('v, 'r) library \<Rightarrow> string \<Rightarrow> 'r \<Rightarrow> int \<Rightarrow> int \<Rightarrow> bool \<Rightarrow> string
     \<Rightarrow> int option \<Rightarrow> string io" where
  "run self lib body ratio min_length max_length use_first algorithm num_sentences =
     bind_io (extern SentenceHandlerCall (sentence_handler self body min_length max_length)) (\<lambda>sentences0.
     bind_io (if sentences0 \<noteq> [] then
                run_clusters self lib sentences0 ratio algorithm use_first num_sentences
              else return_io sentences0) (\<lambda>sentences.
     return_io (py_join '' '' sentences)))"


section \<open>The frequency summarizer (class summarize)\<close>

text \<open>
  The nltk functions and data \<open>get_summary\<close> uses are external and are parameters of the
  model: \<open>stopwords_english\<close> is \<open>stopwords.words("english")\<close>. They are pure and total
  here (the tokenizers' data is installed).
\<close>

record nltk =
  sent_tokenize :: "string \<Rightarrow> string list"
  word_tokenize :: "string \<Rightarrow> string list"
  stopwords_english :: "string list"

text \<open>
  The float arithmetic \<open>get_summary\<close> uses: the constants \<open>0.0\<close> and \<open>1.0\<close>, \<open>x + y\<close> on
  floats, \<open>x / n\<close> of a float by an int other than 0, and the comparison \<open>x < y\<close>. The
  arithmetic is a parameter, so that what is proved for every arithmetic holds for the
  interpreter's, with its rounding. Floats are compared for equality by \<open>=\<close>, as \<open>==\<close> does on
  the values that arise (no NaN, no negative zero).
\<close>

record 'f float_ops =
  fzero :: 'f
  fone :: 'f
  fadd :: "'f \<Rightarrow> 'f \<Rightarrow> 'f"
  ftruediv :: "'f \<Rightarrow> nat \<Rightarrow> 'f"
  fless :: "'f \<Rightarrow> 'f \<Rightarrow> bool"

text \<open>
  CPython's arithmetic, IEEE 754 binary64 with rounding to nearest, ties to even: a float
  is the rational number it denotes, and every operation rounds the exact result to 53
  significant bits (to a multiple of \<open>2 ^ - 1074\<close> below \<open>2 ^ - 1022\<close>). Overflow to infinity
  is not modelled; it needs values of \<open>2 ^ 1024\<close> and more.
\<close>

definition pow2 :: "int \<Rightarrow> rat" where
  "pow2 k = (if 0 \<le> k then 2 ^ nat k else 1 / 2 ^ nat (- k))"

definition round_half_even :: "rat \<Rightarrow> int" where
  "round_half_even m =
     (let f = \<lfloor>m\<rfloor>; d = m - of_int f
      in if d < 1 / 2 then f else if 1 / 2 < d then f + 1 else if even f then f else f + 1)"

text \<open>For \<open>x > 0\<close>, the integer \<open>e\<close> with \<open>2 ^ e \<le> x < 2 ^ (e + 1)\<close>.\<close>

definition binary_exponent :: "rat \<Rightarrow> int" where
  "binary_exponent x =
     (case quotient_of x of (p, q) \<Rightarrow>
        (let e0 = bitlen p - bitlen q
         in if pow2 e0 \<le> x then e0 else e0 - 1))"

definition round_double :: "rat \<Rightarrow> rat" where
  "round_double x =
     (if x = 0 then 0
      else (let e = max (binary_exponent \<bar>x\<bar>) (- 1022); ulp = pow2 (e - 52)
            in sgn x * of_int (round_half_even (\<bar>x\<bar> / ulp)) * ulp))"

text \<open>\<open>x / n\<close> converts the int \<open>n\<close> to a float first, then divides.\<close>

definition double_ops :: "rat float_ops" where
  "double_ops =
     \<lparr> fzero = 0,
       fone = 1,
       fadd = (\<lambda>x y. round_double (x + y)),
       ftruediv = (\<lambda>x n. round_double (x / round_double (of_nat n))),
       fless = (\<lambda>x y. x < y) \<rparr>"

text \<open>What \<open>print\<close> writes to standard output, in order.\<close>

datatype printed = PrintStr string | PrintIndices "nat list"

text \<open>\<open>string.punctuation\<close>, the 32 ASCII punctuation characters.\<close>

definition string_punctuation :: string where
  "string_punctuation =
     [CHR 0x21, CHR 0x22, CHR 0x23, CHR 0x24, CHR 0x25, CHR 0x26, CHR 0x27, CHR 0x28,
      CHR 0x29, CHR 0x2A, CHR 0x2B, CHR 0x2C, CHR 0x2D, CHR 0x2E, CHR 0x2F, CHR 0x3A,
      CHR 0x3B, CHR 0x3C, CHR 0x3D, CHR 0x3E, CHR 0x3F, CHR 0x40, CHR 0x5B, CHR 0x5C,
      CHR 0x5D, CHR 0x5E, CHR 0x5F, CHR 0x60, CHR 0x7B, CHR 0x7C, CHR 0x7D, CHR 0x7E]"

text \<open>\<open>punc = set(string.punctuation)\<close>: the one-character strings of the punctuation marks.\<close>

definition punc :: "string list" where
  "punc = map (\<lambda>c. [c]) string_punctuation"

text \<open>\<open>str.lower\<close> on ASCII text: the letters A to Z are mapped to a to z.\<close>

definition lower_char :: "char \<Rightarrow> char" where
  "lower_char c =
     (let n = (of_char c :: nat) in if 65 \<le> n \<and> n \<le> 90 then char_of (n + 32) else c)"

definition lower :: "string \<Rightarrow> string" where
  "lower s = map lower_char s"

text \<open>\<open>s.strip(chars)\<close>: leading and trailing characters that are in \<open>chars\<close> are removed.\<close>

definition py_strip :: "string \<Rightarrow> string \<Rightarrow> string" where
  "py_strip chars s =
     rev (dropWhile (\<lambda>c. c \<in> set chars) (rev (dropWhile (\<lambda>c. c \<in> set chars) s)))"

text \<open>\<open>x / n\<close> for a float and an int: \<open>ZeroDivisionError\<close> when \<open>n\<close> is 0.\<close>

definition py_truediv :: "'f float_ops \<Rightarrow> 'f \<Rightarrow> nat \<Rightarrow> error + 'f" where
  "py_truediv fl x n = (if n = 0 then Inl ZeroDivisionError else Inr (ftruediv fl x n))"

text \<open>\<open>xs.index(x)\<close>: the first position of \<open>x\<close>, \<open>ValueError\<close> when it is absent.\<close>

definition py_index :: "'a list \<Rightarrow> 'a \<Rightarrow> error + nat" where
  "py_index xs x = (if x \<in> set xs then Inr (length (takeWhile (\<lambda>y. y \<noteq> x) xs)) else Inl ValueError)"

text \<open>\<open>xs.remove(x)\<close>: the first element equal to \<open>x\<close> goes, \<open>ValueError\<close> when there is none.\<close>

definition py_remove :: "'a list \<Rightarrow> 'a \<Rightarrow> error + 'a list" where
  "py_remove xs x = (if x \<in> set xs then Inr (remove1 x xs) else Inl ValueError)"

text \<open>
  \<open>max(enumerate(tracker), key = operator.itemgetter(1))\<close>: the first pair whose value no
  later pair exceeds; \<open>ValueError\<close> on the empty list.
\<close>

definition py_max_enumerate :: "'f float_ops \<Rightarrow> 'f list \<Rightarrow> error + (nat \<times> 'f)" where
  "py_max_enumerate fl tracker =
     (case List.enumerate 0 tracker of
        [] \<Rightarrow> Inl ValueError
      | p # ps \<Rightarrow> Inr (foldl (\<lambda>best q. if fless fl (snd best) (snd q) then q else best) p ps))"

text \<open>
  Lines 340 to 343: the lowercased words of the stripped input that are neither stop words
  nor punctuation marks.
\<close>

definition filtered_words :: "nltk \<Rightarrow> string \<Rightarrow> string list" where
  "filtered_words nl input =
     (let s = py_strip [CHR 0x09, CHR 0x0A] input;
          words_chopped = word_tokenize nl (lower s)
      in filter (\<lambda>w. w \<notin> set (stopwords_english nl) \<and> w \<notin> set punc) words_chopped)"

text \<open>
  Lines 347 to 351: the counting loop. The dict \<open>word_frequency\<close> is an association list in
  insertion order; \<open>AList.update\<close> replaces the value of a present key in place and appends
  an absent one, as a Python dict does. A present key's value grows by \<open>1.0\<close>, an absent key
  gets \<open>1.0\<close>.
\<close>

fun count_words :: "'f float_ops \<Rightarrow> string list \<Rightarrow> (string \<times> 'f) list \<Rightarrow> (string \<times> 'f) list" where
  "count_words fl [] word_frequency = word_frequency"
| "count_words fl (w # ws) word_frequency =
     count_words fl ws
       (case map_of word_frequency w of
          Some c \<Rightarrow> AList.update w (fadd fl c (fone fl)) word_frequency
        | None \<Rightarrow> AList.update w (fone fl) word_frequency)"

text \<open>Lines 352 and 353: every entry's value is divided by \<open>total_words\<close>, one division per entry.\<close>

fun normalize_frequencies ::
  "'f float_ops \<Rightarrow> (string \<times> 'f) list \<Rightarrow> nat \<Rightarrow> error + (string \<times> 'f) list" where
  "normalize_frequencies fl [] total_words = Inr []"
| "normalize_frequencies fl ((word, c) # rest) total_words =
     (case py_truediv fl c total_words of
        Inl e \<Rightarrow> Inl e
      | Inr v \<Rightarrow>
          (case normalize_frequencies fl rest total_words of
             Inl e \<Rightarrow> Inl e
           | Inr rest' \<Rightarrow> Inr ((word, v) # rest')))"

definition word_frequency_table ::
  "'f float_ops \<Rightarrow> nltk \<Rightarrow> string \<Rightarrow> error + (string \<times> 'f) list" where
  "word_frequency_table fl nl input =
     normalize_frequencies fl (count_words fl (filtered_words nl input) [])
       (length (filtered_words nl input))"

text \<open>
  Lines 354 to 358: \<open>tracker[i]\<close> starts at 0.0 and grows, in the order of the dict, by the
  value of every key \<open>j\<close> with \<open>j in sentences_original[i]\<close>, which on strings is substring
  containment (\<open>sublist\<close>).
\<close>

definition sentence_score :: "'f float_ops \<Rightarrow> (string \<times> 'f) list \<Rightarrow> string \<Rightarrow> 'f" where
  "sentence_score fl word_frequency sentence =
     foldl (\<lambda>t (j, v). if sublist j sentence then fadd fl t v else t) (fzero fl) word_frequency"

text \<open>
  Lines 359 to 365: the selection loop. The first argument counts the iterations that
  \<open>range(0, len(tracker))\<close>, evaluated once before the loop, still has to run.
\<close>

fun select_loop ::
  "'f float_ops \<Rightarrow> nat \<Rightarrow> 'f list \<Rightarrow> string list \<Rightarrow> int \<Rightarrow> string list \<Rightarrow> error + string list" where
  "select_loop fl 0 tracker sentences_original max_sentences output_sentence = Inr output_sentence"
| "select_loop fl (Suc k) tracker sentences_original max_sentences output_sentence =
     (case py_max_enumerate fl tracker of
        Inl e \<Rightarrow> Inl e
      | Inr (index, value) \<Rightarrow>
          (case (if int (length output_sentence) + 1 \<le> max_sentences then
                   (case py_getitem sentences_original (int index) of
                      Inl e \<Rightarrow> Inl e
                    | Inr s \<Rightarrow> Inr (if s \<notin> set output_sentence then output_sentence @ [s]
                                else output_sentence))
                 else Inr output_sentence) of
             Inl e \<Rightarrow> Inl e
           | Inr output' \<Rightarrow>
               if int (length output') > max_sentences then Inr output'
               else
                 (case py_getitem tracker (int index) of
                    Inl e \<Rightarrow> Inl e
                  | Inr x \<Rightarrow>
                      (case py_remove tracker x of
                         Inl e \<Rightarrow> Inl e
                       | Inr tracker' \<Rightarrow>
                           select_loop fl k tracker' sentences_original max_sentences output'))))"

text \<open>Lines 371 to 373 of \<open>sort_sentences\<close>: the positions of the chosen sentences.\<close>

fun sentence_positions :: "string list \<Rightarrow> string list \<Rightarrow> error + nat list" where
  "sentence_positions original [] = Inr []"
| "sentence_positions original (s # rest) =
     (if s \<in> set original then
        (case py_index original s of
           Inl e \<Rightarrow> Inl e
         | Inr i \<Rightarrow>
             (case sentence_positions original rest of
                Inl e \<Rightarrow> Inl e
              | Inr is \<Rightarrow> Inr (i # is)))
      else sentence_positions original rest)"

definition sort_sentences :: "string list \<Rightarrow> string list \<Rightarrow> (error + string list) \<times> printed list" where
  "sort_sentences original output =
     (case sentence_positions original output of
        Inl e \<Rightarrow> (Inl e, [])
      | Inr positions \<Rightarrow>
          (let sorted_sent_arr = sort positions in
           case getitems original (map int sorted_sent_arr) of
             Inl e \<Rightarrow> (Inl e, [])
           | Inr sorted_output \<Rightarrow> (Inr sorted_output, [PrintIndices sorted_sent_arr])))"

text \<open>
  \<open>get_summary\<close>. The result of \<open>sent_tokenize(s.lower())\<close> (line 337) is never used and is
  left out.
\<close>

definition get_summary ::
  "'f float_ops \<Rightarrow> nltk \<Rightarrow> string \<Rightarrow> int \<Rightarrow> (error + string list) \<times> printed list" where
  "get_summary fl nl input max_sentences =
     (let sentences_original = sent_tokenize nl input;
          warning =
            (if max_sentences > int (length sentences_original) then
               [PrintStr ''Error, number of requested sentences exceeds number of sentences inputted'']
             else [])
      in case word_frequency_table fl nl input of
           Inl e \<Rightarrow> (Inl e, warning)
         | Inr word_frequency \<Rightarrow>
             (let tracker = map (sentence_score fl word_frequency) sentences_original in
              case select_loop fl (length tracker) tracker sentences_original max_sentences [] of
                Inl e \<Rightarrow> (Inl e, warning)
              | Inr output_sentence \<Rightarrow>
                  (case sort_sentences sentences_original output_sentence of
                     (result, shown) \<Rightarrow> (result, warning @ shown))))"

section \<open>The table and the scores as the specification words them\<close>

text \<open>
  The words of a list in the order of their first occurrence, each once: the order in
  which a dict keeps keys inserted in the order of the list.
\<close>

primrec first_occurrences :: "'a list \<Rightarrow> 'a list" where
  "first_occurrences [] = []"
| "first_occurrences (x # xs) = x # filter (\<lambda>y. y \<noteq> x) (first_occurrences xs)"

text \<open>The number \<open>n\<close> as the float that counting to \<open>n\<close> in steps of \<open>1.0\<close> gives.\<close>

fun float_count :: "'f float_ops \<Rightarrow> nat \<Rightarrow> 'f" where
  "float_count fl 0 = fzero fl"
| "float_count fl (Suc 0) = fone fl"
| "float_count fl (Suc (Suc n)) = fadd fl (float_count fl (Suc n)) (fone fl)"

text \<open>
  The specification's relative frequency of a word: its occurrence count divided by the
  total count of filtered words.
\<close>

definition spec_table_value :: "'f float_ops \<Rightarrow> string list \<Rightarrow> string \<Rightarrow> 'f" where
  "spec_table_value fl words w = ftruediv fl (float_count fl (count_list words w)) (length words)"

text \<open>
  The specification's score of a sentence: the sum, from 0.0 and in table order, of the
  relative frequencies of the table words that are substrings of the sentence.
\<close>

definition spec_sentence_score :: "'f float_ops \<Rightarrow> string list \<Rightarrow> string \<Rightarrow> 'f" where
  "spec_sentence_score fl words sentence =
     foldl (fadd fl) (fzero fl)
       (map (spec_table_value fl words) (filter (\<lambda>w. sublist w sentence) (first_occurrences words)))"

section \<open>Examples\<close>

text \<open>
  Concrete collaborators, for evaluating the definitions. \<open>ex_processor sents\<close> has a
  sentence handler that yields \<open>sents\<close> for every body and a model that embeds a sentence
  as its length; the clustering of \<open>ex_library args\<close> selects the indices \<open>args\<close>.
\<close>

definition ex_processor :: "string list \<Rightarrow> nat ModelProcessor" where
  "ex_processor sents =
     \<lparr> model = (\<lambda>content h r. Inr (map length content)),
       hidden = - 2,
       reduce_option = ''mean'',
       sentence_handler = (\<lambda>body mn mx. Inr sents),
       random_state = 12345 \<rparr>"

definition ex_library :: "int list \<Rightarrow> (nat, real) library" where
  "ex_library args =
     \<lparr> cluster = (\<lambda>hs algorithm seed ratio n. Inr args),
       np_mean = (\<lambda>vs. if vs = [] then Inl ValueError else Inr (sum_list vs div length vs)),
       np_min = (\<lambda>vs. if vs = [] then Inl ValueError else Inr (fold min vs (hd vs))),
       np_median = (\<lambda>vs. if vs = [] then Inl ValueError else Inr (sort vs ! (length vs div 2))),
       np_max = (\<lambda>vs. if vs = [] then Inl ValueError else Inr (fold max vs 0)) \<rparr>"

text \<open>
  \<open>ex_nltk\<close> gives what nltk's tokenizers return on the example texts (and on their
  lowercased forms), and the part of its English stop word list these texts meet.
\<close>

definition ex_text :: string where
  "ex_text = ''The dogs bark and the dogs run. The birds sing. The dogs sleep.''"

definition ex_text_tenths :: string where
  "ex_text_tenths =
     ''The cat and the cat and the cat. The dog and the fox and the owl. The big red old bat.''"

definition ex_nltk :: nltk where
  "ex_nltk =
     \<lparr> sent_tokenize = (\<lambda>s.
         if s = ''The dogs bark and the dogs run. The birds sing. The dogs sleep.'' then
           [''The dogs bark and the dogs run.'', ''The birds sing.'', ''The dogs sleep.'']
         else if s = ''The cat and the cat and the cat. The dog and the fox and the owl. The big red old bat.'' then
           [''The cat and the cat and the cat.'', ''The dog and the fox and the owl.'',
            ''The big red old bat.'']
         else if s = ''This is it.'' then [''This is it.'']
         else []),
       word_tokenize = (\<lambda>s.
         if s = ''the dogs bark and the dogs run. the birds sing. the dogs sleep.'' then
           [''the'', ''dogs'', ''bark'', ''and'', ''the'', ''dogs'', ''run'', ''.'',
            ''the'', ''birds'', ''sing'', ''.'', ''the'', ''dogs'', ''sleep'', ''.'']
         else if s = ''the cat and the cat and the cat. the dog and the fox and the owl. the big red old bat.'' then
           [''the'', ''cat'', ''and'', ''the'', ''cat'', ''and'', ''the'', ''cat'', ''.'',
            ''the'', ''dog'', ''and'', ''the'', ''fox'', ''and'', ''the'', ''owl'', ''.'',
            ''the'', ''big'', ''red'', ''old'', ''bat'', ''.'']
         else if s = ''this is it.'' then [''this'', ''is'', ''it'', ''.'']
         else []),
       stopwords_english =
         [''i'', ''me'', ''my'', ''we'', ''our'', ''you'', ''he'', ''him'', ''his'', ''she'', ''her'',
          ''it'', ''its'', ''they'', ''them'', ''their'', ''what'', ''which'', ''who'', ''this'',
          ''that'', ''these'', ''those'', ''am'', ''is'', ''are'', ''was'', ''were'', ''be'', ''been'',
          ''have'', ''has'', ''had'', ''do'', ''does'', ''did'', ''a'', ''an'', ''the'', ''and'',
          ''but'', ''if'', ''or'', ''because'', ''as'', ''of'', ''at'', ''by'', ''for'', ''with'',
          ''to'', ''from'', ''in'', ''out'', ''on'', ''off'', ''not'', ''so'', ''than'', ''too''] \<rparr>"

section \<open>Properties of the clustering pipeline\<close>

subsection \<open>The call log and list reads\<close>

lemma bind_extern_Inr: "bind_io (extern c (Inr x)) f cs = f x (cs @ [c])"
  by (simp add: bind_io_def extern_def)

lemma bind_extern_Inl: "bind_io (extern c (Inl e)) f cs = (Inl e, cs @ [c])"
  by (simp add: bind_io_def extern_def)

lemma bind_lift_Inr: "bind_io (lift (Inr x)) f cs = f x cs"
  by (simp add: bind_io_def lift_def)

lemma bind_lift_Inl: "bind_io (lift (Inl e)) f cs = (Inl e, cs)"
  by (simp add: bind_io_def lift_def)

lemma bind_return: "bind_io (return_io x) f cs = f x cs"
  by (simp add: bind_io_def return_io_def)

lemma bind_result_Inr: "m cs = (Inr x, cs') \<Longrightarrow> bind_io m f cs = f x cs'"
  by (simp add: bind_io_def)

lemma bind_result_Inl: "m cs = (Inl e, cs') \<Longrightarrow> bind_io m f cs = (Inl e, cs')"
  by (simp add: bind_io_def)

lemmas io_simps = bind_extern_Inr bind_extern_Inl bind_lift_Inr bind_lift_Inl bind_return
  return_io_def raise_io_def

lemma getitems_Inr:
  "getitems xs js = Inr ys \<Longrightarrow>
     ys = map (\<lambda>j. xs ! nat (if j < 0 then int (length xs) + j else j)) js
     \<and> list_all (\<lambda>j. - int (length xs) \<le> j \<and> j < int (length xs)) js"
proof (induction js arbitrary: ys)
  case Nil
  then show ?case by simp
next
  case (Cons j js)
  then show ?case
    by (auto simp: py_getitem_def Let_def split: sum.splits if_splits)
qed

lemma getitems_in_range:
  "list_all (\<lambda>j. 0 \<le> j \<and> j < int (length xs)) js \<Longrightarrow> getitems xs js = Inr (map (\<lambda>j. xs ! nat j) js)"
  by (induction js) (auto simp: py_getitem_def Let_def)

lemma getitems_hd:
  "getitems xs (0 # js) = Inr ys \<Longrightarrow> xs \<noteq> [] \<and> ys \<noteq> [] \<and> hd ys = hd xs"
  by (auto simp: py_getitem_def Let_def hd_conv_nth split: sum.splits if_splits)

lemma use_first_args_hd: "use_first_args True hidden_args \<noteq> [] \<and> hd (use_first_args True hidden_args) = 0"
  by (simp add: use_first_args_def)

lemma cluster_runner_Inr:
  assumes "cluster_runner self lib content ratio algorithm use_first n cs = (Inr (sentences, embeddings), cs')"
  shows "\<exists>hs args0. model self content (hidden self) (reduce_option self) = Inr hs
          \<and> cluster lib hs algorithm (random_state self) ratio n = Inr args0
          \<and> getitems content (use_first_args use_first args0) = Inr sentences
          \<and> getitems hs (use_first_args use_first args0) = Inr embeddings
          \<and> cs' = cs @ [ModelCall, ClusterCall]"
  using assms unfolding cluster_runner_def
  by (auto simp: bind_io_def extern_def lift_def return_io_def Let_def split: sum.splits prod.splits)

lemma cluster_runner_result:
  assumes "model self content (hidden self) (reduce_option self) = Inr hs"
      and "cluster lib hs algorithm (random_state self) ratio n = Inr args0"
      and "getitems content (use_first_args use_first args0) = Inr sentences"
      and "getitems hs (use_first_args use_first args0) = Inr embeddings"
  shows "cluster_runner self lib content ratio algorithm use_first n cs
           = (Inr (sentences, embeddings), cs @ [ModelCall, ClusterCall])"
  using assms unfolding cluster_runner_def
  by (simp add: io_simps Let_def)

lemma ex_cluster_runner:
  "list_all (\<lambda>j. 0 \<le> j \<and> j < int (length content)) (use_first_args u args) \<Longrightarrow>
   cluster_runner (ex_processor sents) (ex_library args) content ratio algorithm u n cs
     = (Inr (map (\<lambda>j. content ! nat j) (use_first_args u args),
             map (\<lambda>j. map length content ! nat j) (use_first_args u args)), cs @ [ModelCall, ClusterCall])"
  by (rule cluster_runner_result[where hs = "map length content" and ?args0.0 = args])
     (simp_all add: ex_processor_def ex_library_def getitems_in_range)

lemma run_embeddings_no_sentences:
  "sentence_handler self body mn mx = Inr [] \<Longrightarrow>
   run_embeddings self lib body ratio mn mx use_first algorithm n aggregate cs
     = (Inr None, cs @ [SentenceHandlerCall])"
  by (simp add: run_embeddings_def io_simps)

lemma retrieve_result:
  "cluster_runner self lib content ratio algorithm use_first n cs = (Inr (sentences, embeddings), cs')
   \<Longrightarrow> retrieve_summarized_embeddings self lib content ratio algorithm use_first n cs = (Inr embeddings, cs')"
  by (simp add: retrieve_summarized_embeddings_def bind_io_def return_io_def)

subsection \<open>The aggregate check of \<open>run_embeddings\<close>\<close>

text \<open>
  C1, as stated, fails: an aggregate value outside mean, median, max and min does not
  always raise, and when it raises the model has already run. With no sentence,
  \<open>run_embeddings\<close> returns \<open>None\<close> whatever the aggregate; with sentences, the log of
  calls at the moment of the assertion error holds the model call and the clustering call.
\<close>

theorem run_embeddings_fail_fast_counterexample:
  "fst (run_embeddings (ex_processor []) (ex_library [1]) ''text'' (1/5) 40 600 True ''kmeans'' None (Some ''sum'') [])
       = Inr None
   \<and> run_embeddings (ex_processor [''ab'', ''cde'']) (ex_library [1]) ''text'' (1/5) 40 600 True ''kmeans'' None
         (Some ''sum'') []
       = (Inl (AssertionError ''aggregate must be mean, min, max, or median''),
          [SentenceHandlerCall, ModelCall, ClusterCall])"
proof -
  have 1: "run_embeddings (ex_processor []) (ex_library [1]) ''text'' (1/5) 40 600 True ''kmeans'' None (Some ''sum'') []
             = (Inr None, [] @ [SentenceHandlerCall])"
    by (rule run_embeddings_no_sentences) (simp add: ex_processor_def)
  have c: "cluster_runner (ex_processor [''ab'', ''cde'']) (ex_library [1]) [''ab'', ''cde''] (1/5) ''kmeans'' True None
             [SentenceHandlerCall]
           = (Inr ([''ab'', ''cde''], [2, 3]), [SentenceHandlerCall, ModelCall, ClusterCall])"
    by (simp add: ex_cluster_runner use_first_args_def)
  have 2: "run_embeddings (ex_processor [''ab'', ''cde'']) (ex_library [1]) ''text'' (1/5) 40 600 True ''kmeans'' None
         (Some ''sum'') []
       = (Inl (AssertionError ''aggregate must be mean, min, max, or median''),
          [SentenceHandlerCall, ModelCall, ClusterCall])"
    using retrieve_result[OF c]
    by (simp add: run_embeddings_def ex_processor_def bind_io_def extern_def raise_io_def)
  show ?thesis using 1 2 by simp
qed

text \<open>
  C1 (amended). For an aggregate value outside mean, median, max and min:
  a body whose segmentation yields no sentence makes \<open>run_embeddings\<close> return \<open>None\<close>
  and raise nothing; a body whose segmentation yields at least one sentence, and for which
  embedding extraction and clustering succeed, makes it raise the assertion error, after
  the model call and the clustering call have been made.
\<close>

theorem run_embeddings_invalid_aggregate:
  assumes "a \<notin> {''mean'', ''median'', ''max'', ''min''}"
  shows "(sentence_handler self body mn mx = Inr [] \<longrightarrow>
            run_embeddings self lib body ratio mn mx use_first algorithm n (Some a) cs
              = (Inr None, cs @ [SentenceHandlerCall]))
       \<and> (\<forall>sentences selected embeddings cs'.
            sentence_handler self body mn mx = Inr sentences \<and> sentences \<noteq> [] \<and>
            cluster_runner self lib sentences ratio algorithm use_first n (cs @ [SentenceHandlerCall])
              = (Inr (selected, embeddings), cs') \<longrightarrow>
            run_embeddings self lib body ratio mn mx use_first algorithm n (Some a) cs
              = (Inl (AssertionError ''aggregate must be mean, min, max, or median''),
                 cs @ [SentenceHandlerCall, ModelCall, ClusterCall]))"
proof (intro conjI allI impI)
  assume "sentence_handler self body mn mx = Inr []"
  then show "run_embeddings self lib body ratio mn mx use_first algorithm n (Some a) cs
              = (Inr None, cs @ [SentenceHandlerCall])"
    by (rule run_embeddings_no_sentences)
next
  fix sentences selected embeddings cs'
  assume h: "sentence_handler self body mn mx = Inr sentences \<and> sentences \<noteq> [] \<and>
            cluster_runner self lib sentences ratio algorithm use_first n (cs @ [SentenceHandlerCall])
              = (Inr (selected, embeddings), cs')"
  then have cs': "cs' = cs @ [SentenceHandlerCall, ModelCall, ClusterCall]"
    using cluster_runner_Inr by fastforce
  from h have r: "retrieve_summarized_embeddings self lib sentences ratio algorithm use_first n
                    (cs @ [SentenceHandlerCall]) = (Inr embeddings, cs')"
    by (simp add: retrieve_result)
  show "run_embeddings self lib body ratio mn mx use_first algorithm n (Some a) cs
              = (Inl (AssertionError ''aggregate must be mean, min, max, or median''),
                 cs @ [SentenceHandlerCall, ModelCall, ClusterCall])"
    using h assms cs' r
    by (simp add: run_embeddings_def bind_extern_Inr bind_result_Inr raise_io_def)
qed

theorem run_embeddings_invalid_aggregate_witness:
  "''sum'' \<notin> {''mean'', ''median'', ''max'', ''min''}
   \<and> run_embeddings (ex_processor []) (ex_library [1]) ''text'' (1/5) 40 600 True ''kmeans'' None (Some ''sum'') []
       = (Inr None, [SentenceHandlerCall])
   \<and> run_embeddings (ex_processor [''ab'', ''cde'']) (ex_library [1]) ''text'' (1/5) 40 600 True ''kmeans'' None
         (Some ''sum'') []
       = (Inl (AssertionError ''aggregate must be mean, min, max, or median''),
          [SentenceHandlerCall, ModelCall, ClusterCall])"
proof -
  have a: "''sum'' \<notin> {''mean'', ''median'', ''max'', ''min''}" by simp
  have c: "cluster_runner (ex_processor [''ab'', ''cde'']) (ex_library [1]) [''ab'', ''cde''] (1/5) ''kmeans'' True None
             ([] @ [SentenceHandlerCall])
           = (Inr ([''ab'', ''cde''], [2, 3]), [SentenceHandlerCall, ModelCall, ClusterCall])"
    by (simp add: ex_cluster_runner use_first_args_def)
  have h1: "sentence_handler (ex_processor []) ''text'' 40 600 = Inr []"
    by (simp add: ex_processor_def)
  have h2: "sentence_handler (ex_processor [''ab'', ''cde'']) ''text'' 40 600 = Inr [''ab'', ''cde'']"
    by (simp add: ex_processor_def)
  note t1 = run_embeddings_invalid_aggregate[OF a, of "ex_processor []" "''text''" 40 600
      "ex_library [1]" "1/5" True "''kmeans''" None "[]", THEN conjunct1, rule_format, OF h1]
  note t2 = run_embeddings_invalid_aggregate[OF a, of "ex_processor [''ab'', ''cde'']" "''text''" 40 600
      "ex_library [1]" "1/5" True "''kmeans''" None "[]", THEN conjunct2, rule_format, OF conjI[OF h2 conjI[OF _ c]]]
  show ?thesis using a t1 t2 by simp
qed

subsection \<open>Empty segmentation\<close>

text \<open>
  C2. For every body for which the sentence handler yields no sentence, \<open>run\<close> returns the
  empty string and \<open>run_embeddings\<close> returns \<open>None\<close>; neither raises, and no call other
  than the sentence handler's is made.
\<close>

theorem empty_segmentation_is_not_an_error:
  assumes "sentence_handler self body mn mx = Inr []"
  shows "run self lib body ratio mn mx use_first algorithm n cs = (Inr [], cs @ [SentenceHandlerCall])
       \<and> run_embeddings self lib body ratio mn mx use_first algorithm n aggregate cs
           = (Inr None, cs @ [SentenceHandlerCall])"
  using assms
  by (simp add: run_def bind_io_def extern_def return_io_def run_embeddings_no_sentences)

theorem empty_segmentation_is_not_an_error_witness:
  "run (ex_processor []) (ex_library [1]) [] (1/5) 40 600 True ''kmeans'' None [] = (Inr [], [SentenceHandlerCall])
   \<and> run_embeddings (ex_processor []) (ex_library [1]) [] (1/5) 40 600 True ''kmeans'' None (Some ''mean'') []
        = (Inr None, [SentenceHandlerCall])"
proof -
  have h: "sentence_handler (ex_processor []) [] 40 600 = Inr []"
    by (simp add: ex_processor_def)
  show ?thesis
    using empty_segmentation_is_not_an_error[OF h, of "ex_library [1]" "1/5" True "''kmeans''" None "[]" "Some ''mean''"]
    by simp
qed

subsection \<open>The first sentence under \<open>use_first\<close>\<close>

text \<open>
  C3. In \<open>cluster_runner\<close> with \<open>use_first\<close> true: an empty index list becomes \<open>[0]\<close>, a
  list whose first element is not 0 gets 0 inserted in front, and so 0 is always among
  the indices used; whenever \<open>cluster_runner\<close> returns, the first returned sentence is
  the first sentence of the content, and it does return when the content is not empty,
  the model yields one vector per sentence and the clustering yields indices in range.
\<close>

theorem use_first_keeps_first_sentence:
  "use_first_args True [] = [0]
   \<and> (hidden_args \<noteq> [] \<and> hd hidden_args \<noteq> 0 \<longrightarrow> use_first_args True hidden_args = 0 # hidden_args)
   \<and> 0 \<in> set (use_first_args True hidden_args)
   \<and> (\<forall>sentences embeddings cs'.
        cluster_runner self lib content ratio algorithm True n cs = (Inr (sentences, embeddings), cs')
        \<longrightarrow> content \<noteq> [] \<and> sentences \<noteq> [] \<and> hd sentences = hd content)
   \<and> (\<forall>hs. content \<noteq> [] \<and> model self content (hidden self) (reduce_option self) = Inr hs
          \<and> length hs = length content
          \<and> cluster lib hs algorithm (random_state self) ratio n = Inr hidden_args
          \<and> list_all (\<lambda>j. 0 \<le> j \<and> j < int (length content)) hidden_args
        \<longrightarrow> cluster_runner self lib content ratio algorithm True n cs
              = (Inr (map (\<lambda>j. content ! nat j) (use_first_args True hidden_args),
                      map (\<lambda>j. hs ! nat j) (use_first_args True hidden_args)), cs @ [ModelCall, ClusterCall]))"
proof (intro conjI allI impI)
  show "use_first_args True [] = [0]" by (simp add: use_first_args_def)
  show "use_first_args True hidden_args = 0 # hidden_args" if "hidden_args \<noteq> [] \<and> hd hidden_args \<noteq> 0"
    using that by (simp add: use_first_args_def)
  show "0 \<in> set (use_first_args True hidden_args)"
    using use_first_args_hd[of hidden_args] by (metis list.set_sel(1))
next
  fix sentences embeddings cs'
  assume "cluster_runner self lib content ratio algorithm True n cs = (Inr (sentences, embeddings), cs')"
  from cluster_runner_Inr[OF this]
  obtain args0 where g: "getitems content (use_first_args True args0) = Inr sentences"
    by blast
  obtain js where "use_first_args True args0 = 0 # js"
    using use_first_args_hd[of args0] by (cases "use_first_args True args0") auto
  with g have "getitems content (0 # js) = Inr sentences" by simp
  from getitems_hd[OF this]
  show "content \<noteq> []" "sentences \<noteq> []" "hd sentences = hd content" by simp_all
next
  fix hs
  assume h: "content \<noteq> [] \<and> model self content (hidden self) (reduce_option self) = Inr hs
          \<and> length hs = length content
          \<and> cluster lib hs algorithm (random_state self) ratio n = Inr hidden_args
          \<and> list_all (\<lambda>j. 0 \<le> j \<and> j < int (length content)) hidden_args"
  then have r: "list_all (\<lambda>j. 0 \<le> j \<and> j < int (length content)) (use_first_args True hidden_args)"
    by (auto simp: use_first_args_def)
  then have r': "list_all (\<lambda>j. 0 \<le> j \<and> j < int (length hs)) (use_first_args True hidden_args)"
    using h by simp
  show "cluster_runner self lib content ratio algorithm True n cs
              = (Inr (map (\<lambda>j. content ! nat j) (use_first_args True hidden_args),
                      map (\<lambda>j. hs ! nat j) (use_first_args True hidden_args)), cs @ [ModelCall, ClusterCall])"
    using h by (intro cluster_runner_result[where hs = hs and ?args0.0 = hidden_args])
      (simp_all add: getitems_in_range[OF r] getitems_in_range[OF r'])
qed

theorem use_first_keeps_first_sentence_witness:
  "use_first_args True [2] = [0, 2]
   \<and> cluster_runner (ex_processor []) (ex_library [2]) [''ab'', ''cde'', ''f''] (1/5) ''kmeans'' True None []
        = (Inr ([''ab'', ''f''], [2, 1]), [ModelCall, ClusterCall])
   \<and> hd [''ab'', ''f''] = hd [''ab'', ''cde'', ''f'']"
proof -
  let ?c = "[''ab'', ''cde'', ''f'']"
  note t = use_first_keeps_first_sentence[of "[2]" "ex_processor []" "ex_library [2]" ?c "1/5" "''kmeans''" None "[]"]
  have 1: "use_first_args True [2] = [0, 2]"
    using t by simp
  have "cluster_runner (ex_processor []) (ex_library [2]) ?c (1/5) ''kmeans'' True None []
        = (Inr (map (\<lambda>j. ?c ! nat j) (use_first_args True [2]),
                map (\<lambda>j. map length ?c ! nat j) (use_first_args True [2])), [] @ [ModelCall, ClusterCall])"
    by (rule t[THEN conjunct2, THEN conjunct2, THEN conjunct2, THEN conjunct2, rule_format])
       (simp add: ex_processor_def ex_library_def)
  then have 2: "cluster_runner (ex_processor []) (ex_library [2]) ?c (1/5) ''kmeans'' True None []
        = (Inr ([''ab'', ''f''], [2, 1]), [ModelCall, ClusterCall])"
    by (simp add: 1)
  have 3: "hd [''ab'', ''f''] = hd ?c"
    using t[THEN conjunct2, THEN conjunct2, THEN conjunct2, THEN conjunct1, rule_format, OF 2] by simp
  show ?thesis using 1 2 3 by simp
qed

subsection \<open>The order of the selection\<close>

text \<open>
  C4, as stated, fails: \<open>cluster_runner\<close> neither sorts nor removes duplicates. When the
  clustering yields \<open>[2, 1]\<close> the selection is in the order 0, 2, 1, and when it yields
  \<open>[1, 0]\<close> the selection holds the first sentence twice.
\<close>

theorem cluster_runner_order_counterexample:
  "cluster_runner (ex_processor []) (ex_library [2, 1]) [''ab'', ''cde'', ''f''] (1/5) ''kmeans'' True None []
     = (Inr ([''ab'', ''f'', ''cde''], [2, 1, 3]), [ModelCall, ClusterCall])
   \<and> use_first_args True [2, 1] = [0, 2, 1] \<and> \<not> sorted_wrt (<) (use_first_args True [2, 1])
   \<and> cluster_runner (ex_processor []) (ex_library [1, 0]) [''ab'', ''cde'', ''f''] (1/5) ''kmeans'' True None []
     = (Inr ([''ab'', ''cde'', ''ab''], [2, 3, 2]), [ModelCall, ClusterCall])
   \<and> use_first_args True [1, 0] = [0, 1, 0] \<and> \<not> distinct (use_first_args True [1, 0])"
proof -
  have 1: "use_first_args True [2, 1] = [0, 2, 1]" "use_first_args True [1, 0] = [0, 1, 0]"
    by (simp_all add: use_first_args_def)
  show ?thesis
    by (simp add: ex_cluster_runner[where cs = "[]", simplified] 1)
qed

text \<open>
  C4 (amended). For every index list within range that the clustering yields, sorted or
  not, \<open>cluster_runner\<close> returns the content's sentences and the model's embeddings at
  the indices of that list, in the order of the list, with 0 put in front when
  \<open>use_first\<close> is true and the list is empty or does not start with 0. When the list is
  strictly ascending, the indices used are strictly ascending and free of duplicates.
\<close>

theorem cluster_runner_preserves_ascending:
  assumes "list_all (\<lambda>j. 0 \<le> j \<and> j < int (length content)) hidden_args"
      and "use_first \<longrightarrow> content \<noteq> []"
      and "model self content (hidden self) (reduce_option self) = Inr hs"
      and "length hs = length content"
      and "cluster lib hs algorithm (random_state self) ratio n = Inr hidden_args"
  shows "cluster_runner self lib content ratio algorithm use_first n cs
           = (Inr (map (\<lambda>j. content ! nat j) (use_first_args use_first hidden_args),
                   map (\<lambda>j. hs ! nat j) (use_first_args use_first hidden_args)), cs @ [ModelCall, ClusterCall])
       \<and> use_first_args use_first hidden_args
           = (if use_first \<and> (hidden_args = [] \<or> hd hidden_args \<noteq> 0) then 0 # hidden_args
              else hidden_args)
       \<and> (sorted_wrt (<) hidden_args \<longrightarrow>
            sorted_wrt (<) (use_first_args use_first hidden_args)
            \<and> distinct (use_first_args use_first hidden_args))"
proof (intro conjI impI)
  let ?args = "use_first_args use_first hidden_args"
  have r: "list_all (\<lambda>j. 0 \<le> j \<and> j < int (length content)) ?args"
    using assms(1,2) by (auto simp: use_first_args_def)
  then have r': "list_all (\<lambda>j. 0 \<le> j \<and> j < int (length hs)) ?args"
    using assms(4) by simp
  show "cluster_runner self lib content ratio algorithm use_first n cs
           = (Inr (map (\<lambda>j. content ! nat j) ?args, map (\<lambda>j. hs ! nat j) ?args), cs @ [ModelCall, ClusterCall])"
    using assms(3,5) by (intro cluster_runner_result[where hs = hs and ?args0.0 = hidden_args])
      (simp_all add: getitems_in_range[OF r] getitems_in_range[OF r'])
  show "?args = (if use_first \<and> (hidden_args = [] \<or> hd hidden_args \<noteq> 0) then 0 # hidden_args
              else hidden_args)"
    by (simp add: use_first_args_def)
  assume asc: "sorted_wrt (<) hidden_args"
  show s: "sorted_wrt (<) ?args"
  proof (cases hidden_args)
    case Nil
    then show ?thesis by (simp add: use_first_args_def)
  next
    case (Cons j js)
    with assms(1) have nonneg: "0 \<le> j" by simp
    from Cons asc have above: "\<forall>k\<in>set js. j < k" by simp
    from nonneg above have "j \<noteq> 0 \<Longrightarrow> \<forall>k\<in>set (j # js). 0 < k" by fastforce
    with Cons asc show ?thesis by (auto simp: use_first_args_def)
  qed
  then show "distinct ?args"
    by (simp add: strict_sorted_iff)
qed

theorem cluster_runner_preserves_ascending_witness:
  "cluster_runner (ex_processor []) (ex_library [2, 1]) [''ab'', ''cde'', ''f''] (1/5) ''kmeans'' True None []
        = (Inr ([''ab'', ''f'', ''cde''], [2, 1, 3]), [ModelCall, ClusterCall])
   \<and> use_first_args True [2, 1] = [0, 2, 1]
   \<and> cluster_runner (ex_processor []) (ex_library [1, 2]) [''ab'', ''cde'', ''f''] (1/5) ''kmeans'' True None []
        = (Inr ([''ab'', ''cde'', ''f''], [2, 3, 1]), [ModelCall, ClusterCall])
   \<and> sorted_wrt (<) [1, 2 :: int]
   \<and> sorted_wrt (<) (use_first_args True [1, 2]) \<and> distinct (use_first_args True [1, 2])"
proof -
  let ?c = "[''ab'', ''cde'', ''f'']"
  have c: "True \<longrightarrow> ?c \<noteq> []" by simp
  have d: "model (ex_processor []) ?c (hidden (ex_processor [])) (reduce_option (ex_processor [])) = Inr [2, 3, 1]"
    by (simp add: ex_processor_def)
  have e: "length [2, 3, 1 :: nat] = length ?c" by simp
  have b1: "list_all (\<lambda>j. 0 \<le> j \<and> j < int (length ?c)) [2, 1]" by simp
  have f1: "cluster (ex_library [2, 1]) [2, 3, 1] ''kmeans'' (random_state (ex_processor [])) (1/5) None = Inr [2, 1]"
    by (simp add: ex_library_def)
  have b2: "list_all (\<lambda>j. 0 \<le> j \<and> j < int (length ?c)) [1, 2]" by simp
  have f2: "cluster (ex_library [1, 2]) [2, 3, 1] ''kmeans'' (random_state (ex_processor [])) (1/5) None = Inr [1, 2]"
    by (simp add: ex_library_def)
  have a: "sorted_wrt (<) [1, 2 :: int]" by simp
  note t1 = cluster_runner_preserves_ascending[OF b1 c d e f1, of "[]"]
  note t2 = cluster_runner_preserves_ascending[OF b2 c d e f2, of "[]"]
  have u1: "use_first_args True [2, 1] = [0, 2, 1]" using t1 by simp
  have u2: "use_first_args True [1, 2] = [0, 1, 2]" using t2 by simp
  have s2: "sorted_wrt (<) (use_first_args True [1, 2]) \<and> distinct (use_first_args True [1, 2])"
    using t2 a by blast
  show ?thesis
    using t1 t2 a s2 by (simp add: u1 u2)
qed

section \<open>Properties of the frequency summarizer\<close>

subsection \<open>The frequency table\<close>

lemma float_count_funpow:
  "((\<lambda>c. fadd fl c (fone fl)) ^^ n) (fone fl) = float_count fl (Suc n)"
  by (induction n) simp_all

lemma map_of_count_words:
  "map_of (count_words fl ws tbl) w =
     (case map_of tbl w of
        Some c \<Rightarrow> Some (((\<lambda>c. fadd fl c (fone fl)) ^^ count_list ws w) c)
      | None \<Rightarrow> if w \<in> set ws then Some (float_count fl (count_list ws w)) else None)"
proof (induction ws arbitrary: tbl)
  case Nil
  then show ?case by (simp split: option.splits)
next
  case (Cons a ws)
  show ?case
  proof (cases "a = w")
    case False
    then show ?thesis
      by (simp add: Cons.IH AList.update_conv' split: option.splits)
  next
    case True
    show ?thesis
    proof (cases "map_of tbl w")
      case None
      then show ?thesis
        using True by (simp add: Cons.IH AList.update_conv' float_count_funpow)
    next
      case (Some c)
      then show ?thesis
        using True funpow_swap1[of "\<lambda>c. fadd fl c (fone fl)" "count_list ws w" c]
        by (simp add: Cons.IH AList.update_conv')
    qed
  qed
qed

lemma first_occurrences_set: "set (first_occurrences xs) = set xs"
  by (induction xs) auto

lemma first_occurrences_distinct: "distinct (first_occurrences xs)"
  by (induction xs) (auto simp: first_occurrences_set)

lemma keys_count_words:
  "map fst (count_words fl ws tbl)
     = map fst tbl @ filter (\<lambda>w. w \<notin> fst ` set tbl) (first_occurrences ws)"
proof (induction ws arbitrary: tbl)
  case Nil
  then show ?case by simp
next
  case (Cons a ws)
  show ?case
  proof (cases "map_of tbl a")
    case None
    then have notin: "a \<notin> fst ` set tbl" by (simp add: map_of_eq_None_iff)
    have k: "map fst (AList.update a (fone fl) tbl) = map fst tbl @ [a]"
      using notin by (simp add: AList.update_keys)
    have s: "fst ` set (AList.update a (fone fl) tbl) = insert a (fst ` set tbl)"
      by (simp add: AList.dom_update)
    have "filter (\<lambda>w. w \<notin> insert a (fst ` set tbl)) (first_occurrences ws)
            = filter (\<lambda>w. w \<notin> fst ` set tbl) (filter (\<lambda>y. y \<noteq> a) (first_occurrences ws))"
      by (simp add: conj_commute)
    then show ?thesis
      using None notin by (simp add: Cons.IH k s)
  next
    case (Some c)
    then have isin: "a \<in> fst ` set tbl" by (metis map_of_eq_None_iff option.distinct(1))
    have k: "map fst (AList.update a (fadd fl c (fone fl)) tbl) = map fst tbl"
      using isin by (simp add: AList.update_keys)
    have s: "fst ` set (AList.update a (fadd fl c (fone fl)) tbl) = fst ` set tbl"
      using isin by (auto simp: AList.dom_update)
    have "filter (\<lambda>w. w \<notin> fst ` set tbl) (filter (\<lambda>y. y \<noteq> a) (first_occurrences ws))
            = filter (\<lambda>w. w \<notin> fst ` set tbl) (first_occurrences ws)"
      using isin by (auto intro: filter_cong)
    then show ?thesis
      using Some isin by (simp add: Cons.IH k s)
  qed
qed

lemma alist_from_keys:
  "distinct (map fst al) \<Longrightarrow> al = map (\<lambda>k. (k, the (map_of al k))) (map fst al)"
proof (induction al)
  case Nil
  then show ?case by simp
next
  case (Cons p al)
  then have notin: "fst p \<notin> set (map fst al)" by simp
  have "map (\<lambda>k. (k, the (map_of (p # al) k))) (map fst al)
               = map (\<lambda>k. (k, the (map_of al k))) (map fst al)"
  proof (rule map_cong)
    fix k assume "k \<in> set (map fst al)"
    with notin have "k \<noteq> fst p" by blast
    then show "(k, the (map_of (p # al) k)) = (k, the (map_of al k))" by simp
  qed simp
  with Cons show ?case by simp
qed

lemma count_words_eq:
  "count_words fl ws [] = map (\<lambda>w. (w, float_count fl (count_list ws w))) (first_occurrences ws)"
proof -
  have k: "map fst (count_words fl ws []) = first_occurrences ws"
    by (simp add: keys_count_words)
  then have d: "distinct (map fst (count_words fl ws []))"
    by (simp add: first_occurrences_distinct)
  have "count_words fl ws []
          = map (\<lambda>w. (w, the (map_of (count_words fl ws []) w))) (first_occurrences ws)"
    using alist_from_keys[OF d] by (simp only: k)
  also have "\<dots> = map (\<lambda>w. (w, float_count fl (count_list ws w))) (first_occurrences ws)"
    by (intro map_cong) (simp_all add: map_of_count_words first_occurrences_set)
  finally show ?thesis .
qed

lemma count_words_empty_iff: "count_words fl ws [] = [] \<longleftrightarrow> ws = []"
  by (cases ws) (simp_all add: count_words_eq)

lemma normalize_frequencies_pos:
  "0 < n \<Longrightarrow> normalize_frequencies fl tbl n = Inr (map (\<lambda>(w, c). (w, ftruediv fl c n)) tbl)"
  by (induction fl tbl n rule: normalize_frequencies.induct) (simp_all add: py_truediv_def)

lemma normalize_frequencies_zero:
  "normalize_frequencies fl tbl 0 = (if tbl = [] then Inr [] else Inl ZeroDivisionError)"
  by (cases tbl) (auto simp: py_truediv_def)

lemma word_frequency_table_eq:
  "word_frequency_table fl nl input =
     Inr (map (\<lambda>w. (w, spec_table_value fl (filtered_words nl input) w))
            (first_occurrences (filtered_words nl input)))"
proof (cases "filtered_words nl input = []")
  case True
  then show ?thesis by (simp add: word_frequency_table_def)
next
  case False
  then show ?thesis
    by (simp add: word_frequency_table_def normalize_frequencies_pos count_words_eq
        spec_table_value_def comp_def)
qed

lemma sentence_score_foldl:
  "foldl (\<lambda>t (j, v). if sublist j s then fadd fl t v else t) a (map (\<lambda>w. (w, f w)) ks)
     = foldl (fadd fl) a (map f (filter (\<lambda>w. sublist w s) ks))"
  by (induction ks arbitrary: a) simp_all

lemma sentence_score_eq:
  "sentence_score fl (map (\<lambda>w. (w, spec_table_value fl ws w)) (first_occurrences ws)) s
     = spec_sentence_score fl ws s"
  by (simp add: sentence_score_def spec_sentence_score_def sentence_score_foldl)

lemma sentence_score_fun_eq:
  "sentence_score fl (map (\<lambda>w. (w, spec_table_value fl ws w)) (first_occurrences ws))
     = spec_sentence_score fl ws"
  by (rule ext) (rule sentence_score_eq)

subsection \<open>The selection loop\<close>

lemma foldl_max_in_set:
  "foldl (\<lambda>best q. if fless fl (snd best) (snd q) then q else best) p ps \<in> set (p # ps)"
  by (induction ps arbitrary: p) auto

lemma py_max_enumerate_Inr:
  assumes "tracker \<noteq> []"
  shows "\<exists>i. py_max_enumerate fl tracker = Inr (i, tracker ! i) \<and> i < length tracker"
proof -
  have "length (List.enumerate 0 tracker) = length tracker" by simp
  with assms obtain p ps where e: "List.enumerate 0 tracker = p # ps"
    by (cases "List.enumerate 0 tracker") auto
  let ?m = "foldl (\<lambda>best q. if fless fl (snd best) (snd q) then q else best) p ps"
  have "?m \<in> set (List.enumerate 0 tracker)"
    using foldl_max_in_set[of fl p ps] e by simp
  then have "fst ?m < length tracker" "tracker ! fst ?m = snd ?m"
    by (simp_all add: in_set_enumerate_eq)
  moreover have "py_max_enumerate fl tracker = Inr ?m"
    by (simp add: py_max_enumerate_def e)
  ultimately show ?thesis
    by (intro exI[of _ "fst ?m"]) simp
qed

lemma py_getitem_nat: "i < length xs \<Longrightarrow> py_getitem xs (int i) = Inr (xs ! i)"
  by (simp add: py_getitem_def)

lemma select_loop_total:
  assumes "k \<le> length tracker" and "length tracker \<le> length orig" and "distinct out"
  shows "\<exists>out'. select_loop fl k tracker orig m out = Inr out'
            \<and> distinct out' \<and> set out' \<subseteq> set out \<union> set orig
            \<and> int (length out') \<le> max m (int (length out))"
  using assms
proof (induction k arbitrary: tracker out)
  case 0
  then show ?case by simp
next
  case (Suc k)
  then have ne: "tracker \<noteq> []" by auto
  from py_max_enumerate_Inr[OF ne]
  obtain i where mx: "py_max_enumerate fl tracker = Inr (i, tracker ! i)" and i: "i < length tracker"
    by blast
  from i Suc.prems(2) have io: "i < length orig" by simp
  define out1 where "out1 =
    (if int (length out) + 1 \<le> m \<and> orig ! i \<notin> set out then out @ [orig ! i] else out)"
  have d1: "distinct out1" using Suc.prems(3) by (simp add: out1_def)
  have s1: "set out1 \<subseteq> set out \<union> set orig" using io by (auto simp: out1_def)
  have l1: "int (length out1) \<le> max m (int (length out))" by (auto simp: out1_def)
  have first: "(if int (length out) + 1 \<le> m then
                   (case py_getitem orig (int i) of
                      Inl e \<Rightarrow> Inl e
                    | Inr s \<Rightarrow> Inr (if s \<notin> set out then out @ [s] else out))
                 else Inr out) = Inr out1"
    by (simp add: py_getitem_nat[OF io] out1_def)
  have rm: "py_remove tracker (tracker ! i) = Inr (remove1 (tracker ! i) tracker)"
    using i by (simp add: py_remove_def)
  have len: "length (remove1 (tracker ! i) tracker) = length tracker - 1"
    using i by (simp add: length_remove1)
  show ?case
  proof (cases "int (length out1) > m")
    case True
    then have "select_loop fl (Suc k) tracker orig m out = Inr out1"
      by (subst select_loop.simps(2), subst mx, simp only: sum.case prod.case, subst first) simp
    with d1 s1 l1 show ?thesis by simp
  next
    case False
    then have step: "select_loop fl (Suc k) tracker orig m out
            = select_loop fl k (remove1 (tracker ! i) tracker) orig m out1"
      by (subst select_loop.simps(2), subst mx, simp only: sum.case prod.case, subst first)
         (simp add: py_getitem_nat[OF i] rm)
    have "k \<le> length (remove1 (tracker ! i) tracker)" using Suc.prems(1) len by simp
    moreover have "length (remove1 (tracker ! i) tracker) \<le> length orig"
      using Suc.prems(2) len by simp
    ultimately obtain out' where
      r: "select_loop fl k (remove1 (tracker ! i) tracker) orig m out1 = Inr out'"
         "distinct out'" "set out' \<subseteq> set out1 \<union> set orig"
         "int (length out') \<le> max m (int (length out1))"
      using Suc.IH[OF _ _ d1] by blast
    from r(3) s1 have "set out' \<subseteq> set out \<union> set orig" by auto
    moreover from r(4) l1 have "int (length out') \<le> max m (int (length out))" by linarith
    ultimately show ?thesis using step r(1,2) by simp
  qed
qed

subsection \<open>Restoring the original order\<close>

lemma first_index_less: "x \<in> set xs \<Longrightarrow> length (takeWhile (\<lambda>y. y \<noteq> x) xs) < length xs"
  by (induction xs) auto

lemma first_index_nth: "x \<in> set xs \<Longrightarrow> xs ! length (takeWhile (\<lambda>y. y \<noteq> x) xs) = x"
  by (induction xs) auto

lemma first_index_inj:
  "x \<in> set xs \<Longrightarrow> y \<in> set xs \<Longrightarrow>
   length (takeWhile (\<lambda>z. z \<noteq> x) xs) = length (takeWhile (\<lambda>z. z \<noteq> y) xs) \<Longrightarrow> x = y"
  by (metis first_index_nth)

lemma sentence_positions_eq:
  "sentence_positions original out
     = Inr (map (\<lambda>s. length (takeWhile (\<lambda>y. y \<noteq> s) original)) (filter (\<lambda>s. s \<in> set original) out))"
  by (induction out) (simp_all add: py_index_def)

lemma sort_sentences_eq:
  assumes "set out \<subseteq> set original"
  shows "sort_sentences original out
           = (Inr (map (\<lambda>i. original ! i) (sort (map (\<lambda>s. length (takeWhile (\<lambda>y. y \<noteq> s) original)) out))),
              [PrintIndices (sort (map (\<lambda>s. length (takeWhile (\<lambda>y. y \<noteq> s) original)) out))])"
proof -
  let ?ix = "\<lambda>s. length (takeWhile (\<lambda>y. y \<noteq> s) original)"
  have f: "filter (\<lambda>s. s \<in> set original) out = out"
    using assms by (auto simp: filter_id_conv)
  have "list_all (\<lambda>j. 0 \<le> j \<and> j < int (length original)) (map int (sort (map ?ix out)))"
    using assms by (auto simp: list_all_iff first_index_less)
  then have "getitems original (map int (sort (map ?ix out)))
               = Inr (map (\<lambda>j. original ! nat j) (map int (sort (map ?ix out))))"
    by (rule getitems_in_range)
  then show ?thesis
    by (simp add: sort_sentences_def sentence_positions_eq f Let_def comp_def)
qed

subsection \<open>\<open>get_summary\<close> returns\<close>

text \<open>
  \<open>get_summary\<close> raises nothing: the table is built, the loop ends with a list of
  distinct sentences of the input, no longer than \<open>max_sentences\<close>, and the result is
  this list put in the order of the sentences' first positions.
\<close>

lemma get_summary_unfold:
  "get_summary fl nl input max_sentences =
     (let sentences_original = sent_tokenize nl input;
          warning =
            (if max_sentences > int (length sentences_original) then
               [PrintStr ''Error, number of requested sentences exceeds number of sentences inputted'']
             else []);
          tracker = map (spec_sentence_score fl (filtered_words nl input)) sentences_original
      in case select_loop fl (length tracker) tracker sentences_original max_sentences [] of
           Inl e \<Rightarrow> (Inl e, warning)
         | Inr output_sentence \<Rightarrow>
             (case sort_sentences sentences_original output_sentence of
                (result, shown) \<Rightarrow> (result, warning @ shown)))"
  by (simp add: get_summary_def word_frequency_table_eq sentence_score_fun_eq Let_def)

lemma get_summary_result:
  fixes fl nl input max_sentences
  defines "orig \<equiv> sent_tokenize nl input"
  defines "ix \<equiv> \<lambda>s. length (takeWhile (\<lambda>y. y \<noteq> s) (sent_tokenize nl input))"
  shows "\<exists>out. select_loop fl (length orig)
                  (map (spec_sentence_score fl (filtered_words nl input)) orig) orig max_sentences [] = Inr out
           \<and> distinct out \<and> set out \<subseteq> set orig \<and> int (length out) \<le> max max_sentences 0
           \<and> get_summary fl nl input max_sentences
               = (Inr (map (\<lambda>i. orig ! i) (sort (map ix out))),
                  (if max_sentences > int (length orig) then
                     [PrintStr ''Error, number of requested sentences exceeds number of sentences inputted'']
                   else []) @ [PrintIndices (sort (map ix out))])"
proof -
  let ?tr = "map (spec_sentence_score fl (filtered_words nl input)) orig"
  have "\<exists>out. select_loop fl (length ?tr) ?tr orig max_sentences [] = Inr out
            \<and> distinct out \<and> set out \<subseteq> set [] \<union> set orig
            \<and> int (length out) \<le> max max_sentences (int (length ([] :: string list)))"
    by (rule select_loop_total) simp_all
  then obtain out where
    o: "select_loop fl (length orig) ?tr orig max_sentences [] = Inr out"
       "distinct out" "set out \<subseteq> set orig" "int (length out) \<le> max max_sentences 0"
    by auto
  have "get_summary fl nl input max_sentences
               = (Inr (map (\<lambda>i. orig ! i) (sort (map ix out))),
                  (if max_sentences > int (length orig) then
                     [PrintStr ''Error, number of requested sentences exceeds number of sentences inputted'']
                   else []) @ [PrintIndices (sort (map ix out))])"
    unfolding get_summary_unfold Let_def
    using o(1) sort_sentences_eq[OF o(3)]
    by (simp add: orig_def ix_def)
  with o show ?thesis by blast
qed

lemma get_summary_bounded_distinct:
  "\<exists>result shown. get_summary fl nl input max_sentences = (Inr result, shown)
      \<and> distinct result \<and> int (length result) \<le> max max_sentences 0"
proof -
  let ?orig = "sent_tokenize nl input"
  let ?ix = "\<lambda>s. length (takeWhile (\<lambda>y. y \<noteq> s) ?orig)"
  from get_summary_result[of fl nl input max_sentences]
  obtain out where
    o: "distinct out" "set out \<subseteq> set ?orig" "int (length out) \<le> max max_sentences 0"
       "get_summary fl nl input max_sentences
          = (Inr (map (\<lambda>i. ?orig ! i) (sort (map ?ix out))),
             (if max_sentences > int (length ?orig) then
                [PrintStr ''Error, number of requested sentences exceeds number of sentences inputted'']
              else []) @ [PrintIndices (sort (map ?ix out))])"
    by blast
  let ?ps = "sort (map ?ix out)"
  have "inj_on ?ix (set out)"
    using o(2) by (intro inj_onI) (blast dest: first_index_inj)
  then have dps: "distinct ?ps"
    using o(1) by (simp add: distinct_map)
  have "\<forall>p \<in> set ?ps. p < length ?orig"
    using o(2) by (auto simp: first_index_less)
  then have "inj_on (\<lambda>i. ?orig ! i) (set ?ps)"
  proof (intro inj_onI)
    fix p q assume a: "\<forall>p \<in> set ?ps. p < length ?orig" "p \<in> set ?ps" "q \<in> set ?ps" "?orig ! p = ?orig ! q"
    from a(2) obtain s where s: "s \<in> set out" "p = ?ix s" by auto
    from a(3) obtain t where t: "t \<in> set out" "q = ?ix t" by auto
    from s o(2) have "?orig ! p = s" using first_index_nth[of s ?orig] by auto
    moreover from t o(2) have "?orig ! q = t" using first_index_nth[of t ?orig] by auto
    ultimately show "p = q" using a(4) s t by simp
  qed
  with dps have "distinct (map (\<lambda>i. ?orig ! i) ?ps)"
    by (simp add: distinct_map)
  with o(3,4) show ?thesis by simp
qed

subsection \<open>Counting and dividing in binary64\<close>

text \<open>
  In \<open>double_ops\<close> an integer up to \<open>2 ^ 53\<close> is its own rounding, so counting in steps of
  \<open>1.0\<close> is exact up to there, and the table value of a word is the double nearest to
  its count divided by the number of filtered words.
\<close>

lemma pow2_pos: "0 < pow2 k"
  by (simp add: pow2_def)

lemma pow2_nonneg_eq: "0 \<le> k \<Longrightarrow> pow2 k = 2 ^ nat k"
  by (simp add: pow2_def)

lemma pow2_neg_cancel: "k \<le> 0 \<Longrightarrow> pow2 k * 2 ^ nat (- k) = 1"
  by (cases "k = 0") (simp_all add: pow2_def)

lemma round_half_even_of_int: "round_half_even (of_int m) = m"
  by (simp add: round_half_even_def Let_def)

lemma round_double_exact:
  assumes "0 < x" and "- 1022 \<le> binary_exponent x"
      and "x = of_int m * pow2 (binary_exponent x - 52)"
  shows "round_double x = x"
proof -
  let ?ulp = "pow2 (binary_exponent x - 52)"
  have ulp: "?ulp \<noteq> 0" using pow2_pos[of "binary_exponent x - 52"] by simp
  have q: "x / ?ulp = of_int m"
    using assms(3) ulp by (metis nonzero_mult_div_cancel_right)
  have "round_double x = sgn x * of_int (round_half_even (x / ?ulp)) * ?ulp"
    using assms(1,2) by (simp add: round_double_def Let_def max_def)
  also have "\<dots> = of_int m * ?ulp"
    using assms(1) by (simp add: q round_half_even_of_int)
  finally show ?thesis using assms(3) by simp
qed

lemma bitlen_one: "bitlen 1 = 1"
  by (simp add: bitlen_alt_def)

lemma binary_exponent_of_int:
  assumes "0 < k"
  shows "binary_exponent (of_int k) = bitlen k - 1"
proof -
  have b: "1 \<le> bitlen k" using assms by (simp add: bitlen_alt_def)
  have "2 ^ nat (bitlen k - 1) \<le> k" using bitlen_bounds[OF assms] by simp
  then have "(of_int (2 ^ nat (bitlen k - 1)) :: rat) \<le> of_int k"
    by (simp only: of_int_le_iff)
  then have "pow2 (bitlen k - 1) \<le> of_int k"
    using b by (simp add: pow2_nonneg_eq)
  then show ?thesis
    by (simp add: binary_exponent_def quotient_of_int bitlen_one Let_def)
qed

lemma round_double_of_int:
  assumes "0 < k" and "k \<le> 2 ^ 53"
  shows "round_double (of_int k) = of_int k"
proof -
  let ?e = "bitlen k - 1"
  have e: "binary_exponent (of_int k) = ?e" by (rule binary_exponent_of_int[OF assms(1)])
  have b: "1 \<le> bitlen k" using assms(1) by (simp add: bitlen_alt_def)
  have lo: "(2::int) ^ nat ?e \<le> k" using bitlen_bounds[OF assms(1)] by simp
  with assms(2) have h: "(2::int) ^ nat ?e \<le> 2 ^ 53" by linarith
  have "nat ?e \<le> 53" by (rule power_le_imp_le_exp[OF _ h]) simp
  then have e53: "?e \<le> 53" by simp
  have "\<exists>m. (of_int k :: rat) = of_int m * pow2 (?e - 52)"
  proof (cases "?e \<le> 52")
    case True
    then have "pow2 (?e - 52) * 2 ^ nat (- (?e - 52)) = 1"
      by (intro pow2_neg_cancel) simp
    then have "(of_int k :: rat) = of_int k * 2 ^ nat (- (?e - 52)) * pow2 (?e - 52)"
      by (simp add: mult.assoc mult.commute)
    then have "(of_int k :: rat) = of_int (k * 2 ^ nat (- (?e - 52))) * pow2 (?e - 52)"
      by simp
    then show ?thesis by blast
  next
    case False
    with e53 have e: "?e = 53" by simp
    with lo assms(2) have k: "k = 2 ^ 53" by simp
    have pe: "pow2 (?e - 52) = 2"
      by (simp only: e) (simp add: pow2_def)
    have "(of_int k :: rat) = of_int (2 ^ 52) * 2"
      by (simp only: k) simp
    then have "(of_int k :: rat) = of_int (2 ^ 52) * pow2 (?e - 52)"
      by (simp only: pe)
    then show ?thesis by blast
  qed
  then obtain m where m: "(of_int k :: rat) = of_int m * pow2 (binary_exponent (of_int k) - 52)"
    by (auto simp: e)
  show ?thesis
    by (rule round_double_exact[OF _ _ m]) (use assms(1) b in \<open>simp_all add: e\<close>)
qed

lemma float_count_double:
  "n \<le> 2 ^ 53 \<Longrightarrow> float_count double_ops n = of_nat n"
proof (induction double_ops n rule: float_count.induct)
  case 1
  then show ?case by (simp add: double_ops_def)
next
  case 2
  then show ?case by (simp add: double_ops_def)
next
  case (3 n)
  from 3(2) have "Suc n \<le> 2 ^ 53" by (rule Suc_leD)
  then have ih: "float_count double_ops (Suc n) = of_nat (Suc n)" by (rule 3(1))
  from 3(2) have "int (Suc (Suc n)) \<le> int (2 ^ 53)" by (simp only: of_nat_le_iff)
  then have le: "int (Suc (Suc n)) \<le> 2 ^ 53" by (simp only: of_nat_power of_nat_numeral)
  have pos: "0 < int (Suc (Suc n))" by simp
  have r: "round_double (of_int (int (Suc (Suc n)))) = of_int (int (Suc (Suc n)))"
    by (rule round_double_of_int[OF pos le])
  have "(of_nat (Suc n) + 1 :: rat) = of_int (int (Suc (Suc n)))" by simp
  then have "round_double (of_nat (Suc n) + 1) = of_nat (Suc (Suc n))"
    using r by (simp only: of_int_of_nat_eq)
  then have "fadd double_ops (float_count double_ops (Suc n)) (fone double_ops) = of_nat (Suc (Suc n))"
    by (simp only: ih) (simp add: double_ops_def)
  then show ?case by (simp only: float_count.simps)
qed

lemma double_table_value:
  assumes "words \<noteq> []" and "length words \<le> 2 ^ 53"
  shows "spec_table_value double_ops words w
           = round_double (of_nat (count_list words w) / of_nat (length words))"
proof -
  have c: "count_list words w \<le> 2 ^ 53"
    using count_le_length[of words w] assms(2) by (rule order_trans)
  have "int (length words) \<le> int (2 ^ 53)" using assms(2) by (simp only: of_nat_le_iff)
  then have le: "int (length words) \<le> 2 ^ 53" by (simp only: of_nat_power of_nat_numeral)
  have pos: "0 < int (length words)" using assms(1) by simp
  have "round_double (of_int (int (length words))) = of_int (int (length words))"
    by (rule round_double_of_int[OF pos le])
  then have n: "round_double (of_nat (length words)) = of_nat (length words)"
    by (simp only: of_int_of_nat_eq)
  have "spec_table_value double_ops words w
          = ftruediv double_ops (of_nat (count_list words w)) (length words)"
    by (simp only: spec_table_value_def float_count_double[OF c])
  also have "\<dots> = round_double (of_nat (count_list words w) / round_double (of_nat (length words)))"
    by (simp add: double_ops_def)
  finally show ?thesis by (simp only: n)
qed

subsection \<open>The example texts\<close>

lemma ex_filtered_words:
  "filtered_words ex_nltk ex_text
     = [''dogs'', ''bark'', ''dogs'', ''run'', ''birds'', ''sing'', ''dogs'', ''sleep'']"
  by code_simp

lemma ex_word_frequency_table:
  "word_frequency_table double_ops ex_nltk ex_text
     = Inr [(''dogs'', 3 / 8), (''bark'', 1 / 8), (''run'', 1 / 8), (''birds'', 1 / 8),
            (''sing'', 1 / 8), (''sleep'', 1 / 8)]"
  by code_simp

lemma ex_scores:
  "map (sentence_score double_ops
          [(''dogs'', 3 / 8), (''bark'', 1 / 8), (''run'', 1 / 8), (''birds'', 1 / 8),
           (''sing'', 1 / 8), (''sleep'', 1 / 8)])
       [''The dogs bark and the dogs run.'', ''The birds sing.'', ''The dogs sleep.'']
     = [5 / 8, 1 / 4, 1 / 2]"
  by code_simp

lemma ex_spec_scores:
  "map (spec_sentence_score double_ops
          [''dogs'', ''bark'', ''dogs'', ''run'', ''birds'', ''sing'', ''dogs'', ''sleep''])
       [''The dogs bark and the dogs run.'', ''The birds sing.'', ''The dogs sleep.'']
     = [5 / 8, 1 / 4, 1 / 2]"
  by code_simp

lemma ex_sentences:
  "sent_tokenize ex_nltk ex_text
     = [''The dogs bark and the dogs run.'', ''The birds sing.'', ''The dogs sleep.'']"
  by (simp add: ex_nltk_def ex_text_def)

lemma ex_summary_2:
  "get_summary double_ops ex_nltk ex_text 2
     = (Inr [''The dogs bark and the dogs run.'', ''The birds sing.''], [PrintIndices [0, 1]])"
  by code_simp

lemma ex_stop_words_only:
  "filtered_words ex_nltk ''This is it.'' = []"
  by code_simp

lemma ex_stop_words_summary:
  "get_summary double_ops ex_nltk ''This is it.'' 1 = (Inr [''This is it.''], [PrintIndices [0]])"
  by code_simp

text \<open>
  A text on which rounding decides. Its ten filtered words give \<open>cat\<close> the value 3.0 / 10
  and seven other words the value 1.0 / 10. The first sentence scores 3.0 / 10, the second
  0.1 + 0.1 + 0.1, which in binary64 is the next double above, and so with
  \<open>max_sentences = 2\<close> the second sentence is returned, not the first.
\<close>

lemma ex_tenths_scores:
  "map (spec_sentence_score double_ops (filtered_words ex_nltk ex_text_tenths))
       (sent_tokenize ex_nltk ex_text_tenths)
     = [5404319552844595 / 18014398509481984, 1351079888211149 / 4503599627370496,
        3602879701896397 / 9007199254740992]"
  by code_simp

lemma ex_tenths_summary:
  "get_summary double_ops ex_nltk ex_text_tenths 2
     = (Inr [''The dog and the fox and the owl.'', ''The big red old bat.''], [PrintIndices [1, 2]])"
  by code_simp

subsection \<open>Greedy selection\<close>

text \<open>
  C6. The claim: \<open>get_summary\<close> returns at most \<open>max_sentences\<close> distinct sentences,
  picking at each step the remaining sentence of highest score. The code does not: once
  an entry is removed from \<open>tracker\<close>, the index of the next maximum no longer names
  the same sentence in \<open>sentences_original\<close>. On the example text the scores are 5/8, 1/4
  and 1/2, and with \<open>max_sentences = 2\<close> the result is the first and the second sentence,
  the one of lowest score, not the first and the third.
\<close>

theorem get_summary_skips_higher_score:
  "word_frequency_table double_ops ex_nltk ex_text
     = Inr [(''dogs'', 3 / 8), (''bark'', 1 / 8), (''run'', 1 / 8), (''birds'', 1 / 8),
            (''sing'', 1 / 8), (''sleep'', 1 / 8)]
   \<and> map (sentence_score double_ops
            [(''dogs'', 3 / 8), (''bark'', 1 / 8), (''run'', 1 / 8), (''birds'', 1 / 8),
             (''sing'', 1 / 8), (''sleep'', 1 / 8)])
       (sent_tokenize ex_nltk ex_text)
     = [5 / 8, 1 / 4, 1 / 2]
   \<and> get_summary double_ops ex_nltk ex_text 2
     = (Inr [''The dogs bark and the dogs run.'', ''The birds sing.''], [PrintIndices [0, 1]])"
  using ex_scores by (simp add: ex_word_frequency_table ex_summary_2 ex_sentences)

subsection \<open>Table values and sentence scores\<close>

text \<open>
  C7. In \<open>get_summary\<close>, whatever the float arithmetic: the table holds exactly the
  filtered words, each once, in the order of their first occurrence, and the value of a
  word is its occurrence count (counted in steps of 1.0) divided by the total count of
  filtered words; the score of a sentence is the sum, from 0.0 and in table order, of
  the values of the table words that are substrings of the sentence; and the result of
  \<open>get_summary\<close> is what the selection loop and \<open>sort_sentences\<close> make of these scores.
  In binary64 arithmetic, with up to \<open>2 ^ 53\<close> filtered words, the value of a word is the
  double nearest to count / total.
\<close>

theorem frequency_table_and_scores:
  "word_frequency_table fl nl input
     = Inr (map (\<lambda>w. (w, spec_table_value fl (filtered_words nl input) w))
              (first_occurrences (filtered_words nl input)))
   \<and> set (first_occurrences (filtered_words nl input)) = set (filtered_words nl input)
   \<and> distinct (first_occurrences (filtered_words nl input))
   \<and> get_summary fl nl input max_sentences
     = (let sentences_original = sent_tokenize nl input;
            warning =
              (if max_sentences > int (length sentences_original) then
                 [PrintStr ''Error, number of requested sentences exceeds number of sentences inputted'']
               else []);
            tracker = map (spec_sentence_score fl (filtered_words nl input)) sentences_original
        in case select_loop fl (length tracker) tracker sentences_original max_sentences [] of
             Inl e \<Rightarrow> (Inl e, warning)
           | Inr output_sentence \<Rightarrow>
               (case sort_sentences sentences_original output_sentence of
                  (result, shown) \<Rightarrow> (result, warning @ shown)))
   \<and> (\<forall>words w. words \<noteq> [] \<and> length words \<le> 2 ^ 53 \<longrightarrow>
          spec_table_value double_ops words w
            = round_double (of_nat (count_list words w) / of_nat (length words)))"
proof (intro conjI allI impI)
  show "word_frequency_table fl nl input
     = Inr (map (\<lambda>w. (w, spec_table_value fl (filtered_words nl input) w))
              (first_occurrences (filtered_words nl input)))"
    by (rule word_frequency_table_eq)
  show "set (first_occurrences (filtered_words nl input)) = set (filtered_words nl input)"
    by (rule first_occurrences_set)
  show "distinct (first_occurrences (filtered_words nl input))"
    by (rule first_occurrences_distinct)
  show "get_summary fl nl input max_sentences
     = (let sentences_original = sent_tokenize nl input;
            warning =
              (if max_sentences > int (length sentences_original) then
                 [PrintStr ''Error, number of requested sentences exceeds number of sentences inputted'']
               else []);
            tracker = map (spec_sentence_score fl (filtered_words nl input)) sentences_original
        in case select_loop fl (length tracker) tracker sentences_original max_sentences [] of
             Inl e \<Rightarrow> (Inl e, warning)
           | Inr output_sentence \<Rightarrow>
               (case sort_sentences sentences_original output_sentence of
                  (result, shown) \<Rightarrow> (result, warning @ shown)))"
    by (rule get_summary_unfold)
  show "spec_table_value double_ops words w
            = round_double (of_nat (count_list words w) / of_nat (length words))"
    if "words \<noteq> [] \<and> length words \<le> 2 ^ 53" for words w
    using that double_table_value by blast
qed

theorem frequency_table_and_scores_witness:
  "word_frequency_table double_ops ex_nltk ex_text
     = Inr [(''dogs'', 3 / 8), (''bark'', 1 / 8), (''run'', 1 / 8), (''birds'', 1 / 8),
            (''sing'', 1 / 8), (''sleep'', 1 / 8)]
   \<and> spec_table_value double_ops (filtered_words ex_nltk ex_text) ''dogs'' = 3 / 8
   \<and> map (spec_sentence_score double_ops (filtered_words ex_nltk ex_text)) (sent_tokenize ex_nltk ex_text)
       = [5 / 8, 1 / 4, 1 / 2]
   \<and> get_summary double_ops ex_nltk ex_text 2
       = (Inr [''The dogs bark and the dogs run.'', ''The birds sing.''], [PrintIndices [0, 1]])"
proof -
  note t = frequency_table_and_scores[of double_ops ex_nltk ex_text 2]
  have ne: "filtered_words ex_nltk ex_text \<noteq> [] \<and> length (filtered_words ex_nltk ex_text) \<le> 2 ^ 53"
    by (simp add: ex_filtered_words)
  from t ne have "spec_table_value double_ops (filtered_words ex_nltk ex_text) ''dogs''
           = round_double (of_nat (count_list (filtered_words ex_nltk ex_text) ''dogs'')
               / of_nat (length (filtered_words ex_nltk ex_text)))"
    by blast
  also have "\<dots> = round_double (3 / 8)"
    by (simp add: ex_filtered_words)
  also have "\<dots> = 3 / 8"
    by code_simp
  finally have v: "spec_table_value double_ops (filtered_words ex_nltk ex_text) ''dogs'' = 3 / 8" .
  from t have "word_frequency_table double_ops ex_nltk ex_text
     = Inr (map (\<lambda>w. (w, spec_table_value double_ops (filtered_words ex_nltk ex_text) w))
              (first_occurrences (filtered_words ex_nltk ex_text)))"
    by blast
  then have tb: "word_frequency_table double_ops ex_nltk ex_text
     = Inr [(''dogs'', 3 / 8), (''bark'', 1 / 8), (''run'', 1 / 8), (''birds'', 1 / 8),
            (''sing'', 1 / 8), (''sleep'', 1 / 8)]"
    by (simp only: ex_word_frequency_table)
  show ?thesis
    using v tb ex_spec_scores ex_summary_2 by (simp add: ex_filtered_words ex_sentences)
qed

subsection \<open>Original order\<close>

text \<open>
  C8. For every input and every float arithmetic \<open>get_summary\<close> returns; every returned sentence is a sentence of
  the original sequence, and the positions at which the returned sentences are found in
  the original sequence are strictly ascending.
\<close>

theorem get_summary_original_order:
  "\<exists>result shown positions.
      get_summary fl nl input max_sentences = (Inr result, shown)
      \<and> set result \<subseteq> set (sent_tokenize nl input)
      \<and> map (py_index (sent_tokenize nl input)) result = map Inr positions
      \<and> sorted_wrt (<) positions"
proof -
  let ?orig = "sent_tokenize nl input"
  let ?ix = "\<lambda>s. length (takeWhile (\<lambda>y. y \<noteq> s) ?orig)"
  from get_summary_result[of fl nl input max_sentences]
  obtain out where
    o: "distinct out" "set out \<subseteq> set ?orig"
       "get_summary fl nl input max_sentences
          = (Inr (map (\<lambda>i. ?orig ! i) (sort (map ?ix out))),
             (if max_sentences > int (length ?orig) then
                [PrintStr ''Error, number of requested sentences exceeds number of sentences inputted'']
              else []) @ [PrintIndices (sort (map ?ix out))])"
    by blast
  let ?ps = "sort (map ?ix out)"
  let ?res = "map (\<lambda>i. ?orig ! i) ?ps"
  have nth_ix: "?orig ! p = s" if "p = ?ix s" "s \<in> set out" for p s
    using that o(2) first_index_nth[of s ?orig] by auto
  have mem: "\<forall>p \<in> set ?ps. \<exists>s \<in> set out. p = ?ix s" by auto
  have sub: "set ?res \<subseteq> set ?orig"
    using mem nth_ix o(2) by fastforce
  have "py_index ?orig (?orig ! p) = Inr p" if "p \<in> set ?ps" for p
  proof -
    from that mem obtain s where s: "s \<in> set out" "p = ?ix s" by blast
    then have "?orig ! p = s" using nth_ix by blast
    then show ?thesis using s o(2) by (auto simp: py_index_def)
  qed
  then have pos: "map (py_index ?orig) ?res = map Inr ?ps"
    by (simp add: comp_def)
  have "inj_on ?ix (set out)"
    using o(2) by (intro inj_onI) (blast dest: first_index_inj)
  then have "distinct (map ?ix out)"
    using o(1) by (simp add: distinct_map)
  then have "sorted_wrt (<) ?ps"
    by (simp add: strict_sorted_iff)
  with o(3) sub pos show ?thesis by blast
qed

theorem get_summary_original_order_witness:
  "get_summary double_ops ex_nltk ex_text 2
     = (Inr [''The dogs bark and the dogs run.'', ''The birds sing.''], [PrintIndices [0, 1]])
   \<and> (\<exists>positions.
         map (py_index [''The dogs bark and the dogs run.'', ''The birds sing.'', ''The dogs sleep.''])
             [''The dogs bark and the dogs run.'', ''The birds sing.''] = map Inr positions
         \<and> sorted_wrt (<) positions)"
  using get_summary_original_order[of double_ops ex_nltk ex_text 2]
  by (simp add: ex_summary_2 ex_sentences)

subsection \<open>More sentences requested than there are\<close>

text \<open>
  C9. The claim: when \<open>max_sentences\<close> exceeds the number of sentences, \<open>get_summary\<close>
  prints the warning, raises nothing and returns all sentences in original order. The
  warning is printed and nothing is raised, but not all sentences are returned: on the
  example text, which has three sentences, \<open>max_sentences = 5\<close> gives the first two.
\<close>

theorem get_summary_drops_sentences:
  "length (sent_tokenize ex_nltk ex_text) = 3
   \<and> get_summary double_ops ex_nltk ex_text 5
     = (Inr [''The dogs bark and the dogs run.'', ''The birds sing.''],
        [PrintStr ''Error, number of requested sentences exceeds number of sentences inputted'',
         PrintIndices [0, 1]])"
  by code_simp

subsection \<open>No division by zero\<close>

text \<open>
  C10. Whatever the float arithmetic: the division by \<open>total_words\<close> happens once per entry of the table, a table with
  an entry has at least one filtered word, and so the normalization never divides by
  zero (a division by zero would raise exactly when the table is not empty); for every
  input, also one of stop words and punctuation only, the table is built and
  \<open>get_summary\<close> returns.
\<close>

theorem normalization_never_divides_by_zero:
  "(count_words fl (filtered_words nl input) [] \<noteq> [] \<longrightarrow> 1 \<le> length (filtered_words nl input))
   \<and> (\<exists>tbl. normalize_frequencies fl (count_words fl (filtered_words nl input) [])
                (length (filtered_words nl input)) = Inr tbl
            \<and> length tbl = length (count_words fl (filtered_words nl input) [])
            \<and> word_frequency_table fl nl input = Inr tbl)
   \<and> (\<forall>counts. normalize_frequencies fl counts 0 = (if counts = [] then Inr [] else Inl ZeroDivisionError))
   \<and> (\<exists>result shown. get_summary fl nl input max_sentences = (Inr result, shown))"
proof (intro conjI allI impI)
  let ?fw = "filtered_words nl input"
  show "1 \<le> length ?fw" if "count_words fl ?fw [] \<noteq> []"
    using that count_words_empty_iff[of fl ?fw] by (cases ?fw) auto
  have "word_frequency_table fl nl input
          = Inr (map (\<lambda>w. (w, spec_table_value fl ?fw w)) (first_occurrences ?fw))"
    by (rule word_frequency_table_eq)
  moreover have "length (count_words fl ?fw []) = length (first_occurrences ?fw)"
    by (simp add: count_words_eq)
  ultimately show "\<exists>tbl. normalize_frequencies fl (count_words fl ?fw []) (length ?fw) = Inr tbl
            \<and> length tbl = length (count_words fl ?fw [])
            \<and> word_frequency_table fl nl input = Inr tbl"
    by (simp add: word_frequency_table_def)
  show "normalize_frequencies fl counts 0 = (if counts = [] then Inr [] else Inl ZeroDivisionError)" for counts
    by (rule normalize_frequencies_zero)
  show "\<exists>result shown. get_summary fl nl input max_sentences = (Inr result, shown)"
    using get_summary_result[of fl nl input max_sentences] by blast
qed

theorem normalization_never_divides_by_zero_witness:
  "count_words double_ops (filtered_words ex_nltk ex_text) [] \<noteq> []
   \<and> 1 \<le> length (filtered_words ex_nltk ex_text)
   \<and> filtered_words ex_nltk ''This is it.'' = []
   \<and> word_frequency_table double_ops ex_nltk ''This is it.'' = Inr []
   \<and> get_summary double_ops ex_nltk ''This is it.'' 1 = (Inr [''This is it.''], [PrintIndices [0]])"
proof -
  have ne: "count_words double_ops (filtered_words ex_nltk ex_text) [] \<noteq> []"
    by (simp add: ex_filtered_words)
  note t1 = normalization_never_divides_by_zero[of double_ops ex_nltk ex_text 2]
  note t2 = normalization_never_divides_by_zero[of double_ops ex_nltk "''This is it.''" 1]
  from t1 ne have 1: "1 \<le> length (filtered_words ex_nltk ex_text)" by blast
  from t2 obtain tbl where
    "length tbl = length (count_words double_ops (filtered_words ex_nltk ''This is it.'') [])"
    "word_frequency_table double_ops ex_nltk ''This is it.'' = Inr tbl"
    by blast
  then have 2: "word_frequency_table double_ops ex_nltk ''This is it.'' = Inr []"
    by (simp add: ex_stop_words_only)
  from ne 1 2 show ?thesis
    by (simp add: ex_stop_words_only ex_stop_words_summary)
qed

end
